theory Spec2Isabelle
  imports Main "HOL-Library.Sublist"
begin

section \<open>Roles, permissions and the role hierarchy (lib/auth.ts)\<close>

text \<open>
  The TypeScript unions \<^verbatim>\<open>UserRole\<close> and \<^verbatim>\<open>Permission\<close> are closed sets of string
  literals; each literal is one constructor.  A value of type
  \<^verbatim>\<open>UserRole | undefined\<close> is a \<^typ>\<open>'a option\<close>.
\<close>

datatype UserRole = Admin | Director | Team | Client | Builder

datatype Permission =
    ManageUsers | ViewUsers | ManageProjects | ViewProjects | ManageContent
  | SubmitContent | ViewAnalytics | ManageSettings | ManageRoles

text \<open>
  \<^verbatim>\<open>ROLE_HIERARCHY\<close> is an object literal: its entries in the order they are written.
\<close>

definition ROLE_HIERARCHY :: "(UserRole \<times> UserRole list) list" where
  "ROLE_HIERARCHY =
     [(Admin, []),
      (Director, [Admin]),
      (Team, [Director, Admin]),
      (Client, []),
      (Builder, [Client])]"

fun ROLE_PERMISSIONS :: "UserRole \<Rightarrow> Permission list" where
  "ROLE_PERMISSIONS Admin =
     [ManageUsers, ViewUsers, ManageProjects, ViewProjects,
      ManageContent, SubmitContent, ViewAnalytics, ManageSettings, ManageRoles]"
| "ROLE_PERMISSIONS Director =
     [ViewUsers, ManageProjects, ViewProjects, ManageContent, SubmitContent, ViewAnalytics]"
| "ROLE_PERMISSIONS Team = [ViewProjects, ManageContent, SubmitContent, ViewAnalytics]"
| "ROLE_PERMISSIONS Client = [ViewProjects, SubmitContent]"
| "ROLE_PERMISSIONS Builder = [ViewProjects]"

text \<open>
  \<^verbatim>\<open>ROLE_HIERARCHY[currentRole] || []\<close>: the parents listed under a key, and the empty
  list for a role that is not a key of the configuration.  The configuration is a
  parameter \<open>h\<close> of the traversal, so that it can be run on any hierarchy; the
  callers below pass the constant \<^const>\<open>ROLE_HIERARCHY\<close>, as the source does.
\<close>

definition parentRoles :: "('r \<times> 'r list) list \<Rightarrow> 'r \<Rightarrow> 'r list" where
  "parentRoles h currentRole = (case map_of h currentRole of None \<Rightarrow> [] | Some ps \<Rightarrow> ps)"

text \<open>
  The inner function \<^verbatim>\<open>traverse\<close> of \<^verbatim>\<open>getInheritedRoles\<close> mutates the two locals
  \<^verbatim>\<open>visited\<close> (a Set) and \<^verbatim>\<open>result\<close> (an array); here they are passed and returned.
  \<open>traverse_loop\<close> is its \<^verbatim>\<open>for (const parentRole of parentRoles)\<close> loop: push the parent,
  then recurse into it, then go on with the state the recursive call left.
\<close>

function (sequential)
  traverse :: "('r \<times> 'r list) list \<Rightarrow> 'r \<Rightarrow> 'r set \<times> 'r list \<Rightarrow> 'r set \<times> 'r list"
  and traverse_loop ::
    "('r \<times> 'r list) list \<Rightarrow> 'r list \<Rightarrow> 'r set \<times> 'r list \<Rightarrow> 'r set \<times> 'r list"
where
  "traverse h currentRole (visited, result) =
     (if currentRole \<in> visited then (visited, result)
      else traverse_loop h (parentRoles h currentRole) (insert currentRole visited, result))"
| "traverse_loop h [] st = st"
| "traverse_loop h (parentRole # rest) (visited, result) =
     traverse_loop h rest (traverse h parentRole (visited, result @ [parentRole]))"
  by pat_completeness auto

text \<open>
  Termination.  The recursion is nested (the loop continues from the state a recursive
  call returns), so the first step is that a call, where it returns, never shrinks the
  visited set.  The measure is then the number of configured keys not yet visited, and
  within that the position in the loop.
\<close>

lemma traverse_grows_dom:
  "traverse_traverse_loop_dom (Inl (h, c, st)) \<Longrightarrow> fst st \<subseteq> fst (traverse h c st)"
  "traverse_traverse_loop_dom (Inr (h, ps, st)) \<Longrightarrow> fst st \<subseteq> fst (traverse_loop h ps st)"
proof (induction h c st and h ps st rule: traverse_traverse_loop.pinduct)
  case (1 h currentRole visited result)
  then show ?case by (auto simp: traverse.psimps)
next
  case (2 h st)
  then show ?case by (simp add: traverse_loop.psimps)
next
  case (3 h parentRole rest visited result)
  then show ?case by (auto simp: traverse_loop.psimps)
qed

definition unvisited :: "('r \<times> 'r list) list \<Rightarrow> 'r set \<Rightarrow> nat" where
  "unvisited h visited = card (fst ` set h - visited)"

lemma unvisited_mono: "v \<subseteq> v' \<Longrightarrow> unvisited h v' \<le> unvisited h v"
  unfolding unvisited_def by (intro card_mono) auto

lemma unvisited_insert_key:
  "c \<notin> v \<Longrightarrow> c \<in> fst ` set h \<Longrightarrow> unvisited h (insert c v) < unvisited h v"
  unfolding unvisited_def by (intro psubset_card_mono) auto

lemma parentRoles_not_key: "c \<notin> fst ` set h \<Longrightarrow> parentRoles h c = []"
  by (simp add: parentRoles_def map_of_eq_None_iff[THEN iffD2])

termination traverse
proof (relation "inv_image (less_than <*lex*> less_than)
         (\<lambda>x. case x of Inl (h, c, (v, r)) \<Rightarrow> (unvisited h v, 1::nat)
                     | Inr (h, ps, (v, r)) \<Rightarrow> (unvisited h v, 2 * length ps))", goal_cases)
  case 1
  show ?case by (intro wf_inv_image wf_lex_prod wf_less_than)
next
  case (2 h currentRole visited result)
  show ?case
  proof (cases "currentRole \<in> fst ` set h")
    case True
    with 2 show ?thesis by (simp add: unvisited_insert_key)
  next
    case False
    have "unvisited h (insert currentRole visited) \<le> unvisited h visited"
      by (rule unvisited_mono) auto
    with False show ?thesis by (auto simp: parentRoles_not_key)
  qed
next
  case (3 h parentRole rest visited result)
  show ?case by simp
next
  case (4 h parentRole rest visited result)
  from traverse_grows_dom(1)[OF 4]
  have "visited \<subseteq> fst (traverse h parentRole (visited, result @ [parentRole]))"
    by simp
  then have "unvisited h (fst (traverse h parentRole (visited, result @ [parentRole])))
               \<le> unvisited h visited"
    by (rule unvisited_mono)
  then show ?case by (auto simp: case_prod_beta)
qed

declare traverse.simps [simp del]

definition getInheritedRoles :: "('r \<times> 'r list) list \<Rightarrow> 'r \<Rightarrow> 'r list" where
  "getInheritedRoles h role = snd (traverse h role ({}, []))"

definition hasRole :: "UserRole option \<Rightarrow> UserRole \<Rightarrow> bool" where
  "hasRole userRole requiredRole =
     (case userRole of
        None \<Rightarrow> False
      | Some u \<Rightarrow>
          if u = requiredRole then True
          else requiredRole \<in> set (getInheritedRoles ROLE_HIERARCHY u))"

definition hasRequiredRole :: "UserRole option \<Rightarrow> UserRole list \<Rightarrow> bool" where
  "hasRequiredRole userRole requiredRoles =
     (if userRole = None \<or> length requiredRoles = 0 then False
      else list_ex (\<lambda>role. hasRole userRole role) requiredRoles)"

definition hasPermission :: "UserRole option \<Rightarrow> Permission \<Rightarrow> bool" where
  "hasPermission userRole permission =
     (case userRole of
        None \<Rightarrow> False
      | Some u \<Rightarrow>
          if permission \<in> set (ROLE_PERMISSIONS u) then True
          else list_ex (\<lambda>role. permission \<in> set (ROLE_PERMISSIONS role))
                 (getInheritedRoles ROLE_HIERARCHY u))"

definition hasAllPermissions :: "UserRole option \<Rightarrow> Permission list \<Rightarrow> bool" where
  "hasAllPermissions userRole permissions =
     (if userRole = None \<or> length permissions = 0 then False
      else list_all (\<lambda>permission. hasPermission userRole permission) permissions)"

definition hasAnyPermission :: "UserRole option \<Rightarrow> Permission list \<Rightarrow> bool" where
  "hasAnyPermission userRole permissions =
     (if userRole = None \<or> length permissions = 0 then False
      else list_ex (\<lambda>permission. hasPermission userRole permission) permissions)"

text \<open>
  A JavaScript \<^verbatim>\<open>Set\<close> keeps its members in insertion order and ignores the insertion
  of a member it already has; \<^verbatim>\<open>Array.from\<close> lists the members in that order.
\<close>

definition set_add :: "'a \<Rightarrow> 'a list \<Rightarrow> 'a list" where
  "set_add x s = (if x \<in> set s then s else s @ [x])"

definition new_Set :: "'a list \<Rightarrow> 'a list" where
  "new_Set xs = fold set_add xs []"

definition getAllPermissions :: "UserRole option \<Rightarrow> Permission list" where
  "getAllPermissions userRole =
     (case userRole of
        None \<Rightarrow> []
      | Some u \<Rightarrow>
          fold (\<lambda>role permissions. fold set_add (ROLE_PERMISSIONS role) permissions)
            (getInheritedRoles ROLE_HIERARCHY u)
            (new_Set (ROLE_PERMISSIONS u)))"

text \<open>
  The parent edges of a configuration, for stating what the traversal computes: \<open>(c, p)\<close>
  is an edge when \<open>p\<close> is listed under the key \<open>c\<close>.
\<close>

definition roleEdges :: "('r \<times> 'r list) list \<Rightarrow> ('r \<times> 'r) set" where
  "roleEdges h = {(c, p). p \<in> set (parentRoles h c)}"

text \<open>
  \<open>extends h st st'\<close>: from \<open>st\<close> to \<open>st'\<close> the visited set and the result only grew,
  and every role visited in between has all its parents visited and pushed.
\<close>

definition extends :: "('r \<times> 'r list) list \<Rightarrow> 'r set \<times> 'r list \<Rightarrow> 'r set \<times> 'r list \<Rightarrow> bool" where
  "extends h st st' \<longleftrightarrow>
     fst st \<subseteq> fst st' \<and> set (snd st) \<subseteq> set (snd st') \<and>
     (\<forall>x \<in> fst st' - fst st. set (parentRoles h x) \<subseteq> fst st' \<inter> set (snd st'))"

definition cyclic_hierarchy :: "(nat \<times> nat list) list" where
  "cyclic_hierarchy = [(0, [1]), (1, [0])]"

section \<open>The rate limiter (lib/apiAuth.ts)\<close>

text \<open>
  \<^verbatim>\<open>requestCounts\<close> is a module-level plain object from user key to
  \<^verbatim>\<open>{ count, resetTime }\<close>.  Its own properties are the map that is passed in and
  returned.  \<open>now\<close> is the reading of \<^verbatim>\<open>Date.now()\<close>, in milliseconds.
\<close>

record bucket =
  count :: nat
  resetTime :: int

definition MAX_REQUESTS_PER_MINUTE :: nat where
  "MAX_REQUESTS_PER_MINUTE = 60"

definition RATE_LIMIT_WINDOW_MS :: int where
  "RATE_LIMIT_WINDOW_MS = 60 * 1000"

text \<open>
  A plain object also answers for the properties it inherits from
  \<^verbatim>\<open>Object.prototype\<close>: these are their names in the ECMAScript standard (its annex of
  legacy accessors included).  Under such a key, and as long as the key is no own
  property, \<^verbatim>\<open>requestCounts[userKey]\<close> is a function (for \<^verbatim>\<open>__proto__\<close> the prototype
  itself): a truthy value with no \<^verbatim>\<open>resetTime\<close> and no \<^verbatim>\<open>count\<close>.
\<close>

definition Object_prototype :: "string list" where
  "Object_prototype =
     [''constructor'', ''hasOwnProperty'', ''isPrototypeOf'', ''propertyIsEnumerable'',
      ''toLocaleString'', ''toString'', ''valueOf'', ''__proto__'',
      ''__defineGetter__'', ''__defineSetter__'', ''__lookupGetter__'', ''__lookupSetter__'']"

text \<open>
  \<^verbatim>\<open>count\<close> is a double that starts at 1 and grows by \<^verbatim>\<open>count++\<close>: it is a whole
  number, and at \<open>2\<^sup>5\<^sup>3\<close> adding one rounds back to the same value.
\<close>

definition DOUBLE_INTEGER_LIMIT :: nat where
  "DOUBLE_INTEGER_LIMIT = 9007199254740992"

definition increment :: "nat \<Rightarrow> nat" where
  "increment c = (if c < DOUBLE_INTEGER_LIMIT then c + 1 else c)"

definition userKeyOf :: "string \<Rightarrow> string" where
  "userKeyOf userId = (if userId = [] then ''anonymous'' else userId)"

text \<open>
  Under an inherited key the first test fails both ways (the value is truthy, and
  \<^verbatim>\<open>undefined < now\<close> is false), so no bucket is made; \<^verbatim>\<open>count++\<close> then leaves
  \<^verbatim>\<open>NaN\<close> on the inherited value, not in the table, and \<^verbatim>\<open>NaN > 60\<close> is false.
\<close>

definition isRateLimited ::
  "int \<Rightarrow> string \<Rightarrow> (string \<rightharpoonup> bucket) \<Rightarrow> bool \<times> (string \<rightharpoonup> bucket)" where
  "isRateLimited now userId requestCounts =
     (let userKey = userKeyOf userId in
      case requestCounts userKey of
        None \<Rightarrow>
          if userKey \<in> set Object_prototype then (False, requestCounts)
          else
            (False,
             requestCounts(userKey \<mapsto> \<lparr>count = 1, resetTime = now + RATE_LIMIT_WINDOW_MS\<rparr>))
      | Some b \<Rightarrow>
          if resetTime b < now then
            (False,
             requestCounts(userKey \<mapsto> \<lparr>count = 1, resetTime = now + RATE_LIMIT_WINDOW_MS\<rparr>))
          else
            (MAX_REQUESTS_PER_MINUTE < increment (count b),
             requestCounts(userKey \<mapsto> b\<lparr>count := increment (count b)\<rparr>)))"


section \<open>The API guard (lib/apiAuth.ts)\<close>

text \<open>
  What the guard reads from outside is gathered in one record.  A value that is thrown
  is either an \<^verbatim>\<open>Error\<close> with its message or something else.  A row of
  \<^verbatim>\<open>public.users\<close> has the columns the migration adds; the guard's query selects only
  \<^verbatim>\<open>role\<close>, which the source casts to \<^verbatim>\<open>UserRole\<close> (a null or empty role is
  \<open>None\<close>).  Timestamps are milliseconds, as \<^verbatim>\<open>Date.now()\<close> counts them.
\<close>

datatype thrown = Error string | NonError

record users_row =
  u_role :: "UserRole option"
  u_active :: bool
  u_failed_login_attempts :: nat
  u_locked_until :: "int option"

record query_result =
  q_error :: bool
  q_data :: "users_row option"

text \<open>
  The wrapped handler, called with the request: it returns a response, throws while it
  is being called (\<open>throws_sync\<close>), or returns a promise that is rejected later.
\<close>

datatype 'a handler_outcome = Returns 'a | ThrowsSync thrown | Rejects thrown

fun throws_sync :: "'a handler_outcome \<Rightarrow> bool" where
  "throws_sync (ThrowsSync err) = True"
| "throws_sync (Returns a) = False"
| "throws_sync (Rejects err) = False"

record RouteConfig =
  requiredRole :: "UserRole option"
  requiredPermissions :: "Permission list option"
  anyPermission :: "Permission list option"

record 'a env =
  req_path :: string
  req_method :: string
  getSession :: "thrown + string option"
  users_query :: "string \<Rightarrow> thrown + query_result"
  handler_result :: "'a handler_outcome"
  clock :: int
  sink_up :: bool

text \<open>
  The arguments of one call of \<^verbatim>\<open>logApiAccess\<close>.  The state keeps every call in
  \<open>emitted\<close>, and in \<open>audit_logs\<close> the rows the sink stored.
\<close>

record audit_event =
  ev_path :: string
  ev_method :: string
  ev_user_id :: "string option"
  ev_user_role :: "UserRole option"
  ev_success :: bool
  ev_reason :: "string option"

record state =
  requestCounts :: "string \<rightharpoonup> bucket"
  emitted :: "audit_event list"
  audit_logs :: "audit_event list"

datatype 'a response =
    Json string nat "(string \<times> string) list"
  | Handled 'a
  | Rejected thrown

text \<open>
  \<^verbatim>\<open>logApiAccess\<close> wraps the insert in \<^verbatim>\<open>try/catch\<close>: when the sink fails, the error
  goes to the console and nothing else happens.
\<close>

definition logApiAccess ::
  "bool \<Rightarrow> string \<Rightarrow> string \<Rightarrow> string option \<Rightarrow> UserRole option \<Rightarrow> bool \<Rightarrow> string option
     \<Rightarrow> state \<Rightarrow> state" where
  "logApiAccess sinkUp path method userId userRole success reason st =
     (let ev = \<lparr>ev_path = path, ev_method = method, ev_user_id = userId,
                 ev_user_role = userRole, ev_success = success, ev_reason = reason\<rparr>
      in st\<lparr>emitted := emitted st @ [ev],
            audit_logs := (if sinkUp then audit_logs st @ [ev] else audit_logs st)\<rparr>)"

definition is_set :: "'a option \<Rightarrow> bool" where
  "is_set x = (case x of None \<Rightarrow> False | Some _ \<Rightarrow> True)"

definition call_handler :: "'a env \<Rightarrow> state \<Rightarrow> (thrown + 'a response) \<times> state" where
  "call_handler e st =
     (case handler_result e of
        Returns a \<Rightarrow> (Inr (Handled a), st)
      | ThrowsSync err \<Rightarrow> (Inl err, st)
      | Rejects err \<Rightarrow> (Inr (Rejected err), st))"

text \<open>
  The \<^verbatim>\<open>try\<close> block of \<^verbatim>\<open>withAuth\<close>: \<open>Inl\<close> is a value thrown inside it, with the
  state as it was when it was thrown.
\<close>

definition withAuth_try ::
  "RouteConfig \<Rightarrow> 'a env \<Rightarrow> state \<Rightarrow> (thrown + 'a response) \<times> state" where
  "withAuth_try config e st =
     (let path = req_path e; method = req_method e; log = logApiAccess (sink_up e) path method in
      case getSession e of
        Inl err \<Rightarrow> (Inl err, st)
      | Inr None \<Rightarrow>
          (Inr (Json ''Authentication required'' 401 []),
           log None None False (Some ''No session'') st)
      | Inr (Some userId) \<Rightarrow>
          (case isRateLimited (clock e) userId (requestCounts st) of
             (limited, counts) \<Rightarrow>
               let st1 = st\<lparr>requestCounts := counts\<rparr> in
               if limited then
                 (Inr (Json ''Too many requests'' 429 [(''Retry-After'', ''60'')]),
                  log (Some userId) None False (Some ''Rate limited'') st1)
               else if is_set (requiredRole config) \<or> is_set (requiredPermissions config)
                         \<or> is_set (anyPermission config) then
                 (case users_query e userId of
                    Inl err \<Rightarrow> (Inl err, st1)
                  | Inr q \<Rightarrow>
                      (case (if q_error q then None
                             else case q_data q of None \<Rightarrow> None | Some userData \<Rightarrow> u_role userData) of
                         None \<Rightarrow>
                           (Inr (Json ''User role not found'' 403 []),
                            log (Some userId) None False (Some ''Role not found'') st1)
                       | Some userRole \<Rightarrow>
                           if (case requiredRole config of
                                 None \<Rightarrow> False
                               | Some r \<Rightarrow> \<not> hasRole (Some userRole) r) then
                             (Inr (Json ''Insufficient permissions'' 403 []),
                              log (Some userId) (Some userRole) False (Some ''Insufficient role'') st1)
                           else if (case requiredPermissions config of
                                      None \<Rightarrow> False
                                    | Some ps \<Rightarrow>
                                        0 < length ps
                                        \<and> \<not> list_all (\<lambda>permission. hasPermission (Some userRole) permission) ps) then
                             (Inr (Json ''Insufficient permissions'' 403 []),
                              log (Some userId) (Some userRole) False
                                (Some ''Missing required permissions'') st1)
                           else if (case anyPermission config of
                                      None \<Rightarrow> False
                                    | Some ps \<Rightarrow>
                                        0 < length ps
                                        \<and> \<not> list_ex (\<lambda>permission. hasPermission (Some userRole) permission) ps) then
                             (Inr (Json ''Insufficient permissions'' 403 []),
                              log (Some userId) (Some userRole) False
                                (Some ''No matching permissions'') st1)
                           else
                             call_handler e (log (Some userId) (Some userRole) True None st1)))
               else
                 call_handler e (log (Some userId) None True None st1)))"

definition withAuth :: "RouteConfig \<Rightarrow> 'a env \<Rightarrow> state \<Rightarrow> 'a response \<times> state" where
  "withAuth config e st =
     (case withAuth_try config e st of
        (Inr response, st') \<Rightarrow> (response, st')
      | (Inl err, st') \<Rightarrow>
          (Json ''Internal server error'' 500 [],
           logApiAccess (sink_up e) (req_path e) (req_method e) None None False
             (Some (''Error: '' @ (case err of Error message \<Rightarrow> message | NonError \<Rightarrow> ''Unknown error'')))
             st'))"

definition withDirectorAuth :: "'a env \<Rightarrow> state \<Rightarrow> 'a response \<times> state" where
  "withDirectorAuth = withAuth \<lparr>requiredRole = Some Director, requiredPermissions = None,
                                 anyPermission = None\<rparr>"



text \<open>
  The guard reaches the call of the handler: with a handler in its place that only
  hands back a rejected promise, that promise is what \<^verbatim>\<open>withAuth\<close> returns (every other
  branch returns a JSON response).
\<close>

definition reaches_handler :: "RouteConfig \<Rightarrow> 'a env \<Rightarrow> state \<Rightarrow> bool" where
  "reaches_handler config e st \<longleftrightarrow>
     fst (withAuth config (e\<lparr>handler_result := Rejects NonError\<rparr>) st) = Rejected NonError"

section \<open>The route middleware (function middleware)\<close>

text \<open>
  The three route tables, in the order their entries are written (the order
  \<^verbatim>\<open>Object.entries\<close> lists them in).  Roles and permissions are plain strings here, as
  the middleware compares them.
\<close>

definition publicRoutes :: "string list" where
  "publicRoutes =
     [''/'', ''/login'', ''/register'', ''/api/auth/callback'', ''/api/auth/logout'',
      ''/api/auth/reset-password'', ''/unauthorized'']"

definition routePermissions :: "(string \<times> string list) list" where
  "routePermissions =
     [(''/dashboard'', [''view:projects'']),
      (''/projects'', [''view:projects'']),
      (''/projects/new'', [''manage:projects'']),
      (''/projects/edit'', [''manage:projects'']),
      (''/users'', [''view:users'']),
      (''/users/manage'', [''manage:users'']),
      (''/settings'', [''manage:settings'']),
      (''/analytics'', [''view:analytics''])]"

definition routeRoles :: "(string \<times> string list) list" where
  "routeRoles =
     [(''/admin'', [''admin'']),
      (''/director'', [''admin'', ''director''])]"

text \<open>
  The test every table entry is matched with:
  \<^verbatim>\<open>path === route || path.startsWith(`${route}/`)\<close>.
\<close>

definition route_matches :: "string \<Rightarrow> string \<Rightarrow> bool" where
  "route_matches path route = (path = route \<or> prefix (route @ ''/'') path)"

text \<open>
  The edge function \<^verbatim>\<open>check-permissions\<close> is not part of the repository's files: its
  answer to a role and a list of required permissions is a parameter of the
  environment.  \<open>InvokeError\<close> is a \<^verbatim>\<open>permissionError\<close>; \<open>HasPermission b\<close> is the
  truth value of \<^verbatim>\<open>permissionCheck?.hasPermission\<close>.
\<close>

datatype permission_check = InvokeError | HasPermission bool

record mw_env =
  mw_path :: string
  mw_session :: "string option"
  mw_userData :: "string option"
  check_permissions :: "string \<Rightarrow> string list \<Rightarrow> permission_check"

text \<open>
  What a run of the middleware does besides answering: each call of the edge function,
  and each \<^verbatim>\<open>log_auth_event\<close> with the path, the role and the requirement that failed.
\<close>

datatype mw_effect =
    Invoke string "string list"
  | LogUnauthorized string string string "string list"

datatype mw_response =
    Next
  | RedirectLogin string
  | RedirectLogout
  | RedirectUnauthorized
  | NextWithSecurityHeaders

text \<open>
  The two \<^verbatim>\<open>for\<close> loops.  Each goes through its whole table and returns early at the
  first matching entry whose requirement fails; \<open>Some\<close> (respectively \<open>True\<close>) is that
  early return.
\<close>

fun roleLoop ::
  "string \<Rightarrow> string \<Rightarrow> string \<Rightarrow> (string \<times> string list) list \<Rightarrow> mw_effect list option" where
  "roleLoop userId path userRole [] = None"
| "roleLoop userId path userRole ((route, allowedRoles) # rest) =
     (if route_matches path route then
        (if userRole \<in> set allowedRoles then roleLoop userId path userRole rest
         else Some [LogUnauthorized userId path userRole allowedRoles])
      else roleLoop userId path userRole rest)"

fun permissionLoop ::
  "(string \<Rightarrow> string list \<Rightarrow> permission_check) \<Rightarrow> string \<Rightarrow> string \<Rightarrow> string
     \<Rightarrow> (string \<times> string list) list \<Rightarrow> mw_effect list \<Rightarrow> bool \<times> mw_effect list" where
  "permissionLoop check userId path userRole [] trace = (False, trace)"
| "permissionLoop check userId path userRole ((route, required) # rest) trace =
     (if route_matches path route then
        (case check userRole required of
           HasPermission True \<Rightarrow>
             permissionLoop check userId path userRole rest
               (trace @ [Invoke userRole required])
         | _ \<Rightarrow>
             (True, trace @ [Invoke userRole required,
                             LogUnauthorized userId path userRole required]))
      else permissionLoop check userId path userRole rest trace)"

definition middleware :: "mw_env \<Rightarrow> mw_response \<times> mw_effect list" where
  "middleware e =
     (let path = mw_path e in
      if list_ex (\<lambda>route. route_matches path route) publicRoutes then (Next, [])
      else
        case mw_session e of
          None \<Rightarrow> (RedirectLogin path, [])
        | Some userId \<Rightarrow>
            (case mw_userData e of
               None \<Rightarrow> (RedirectLogout, [])
             | Some userRole \<Rightarrow>
                 (case roleLoop userId path userRole routeRoles of
                    Some trace \<Rightarrow> (RedirectUnauthorized, trace)
                  | None \<Rightarrow>
                      (case permissionLoop (check_permissions e) userId path userRole
                              routePermissions [] of
                         (True, trace) \<Rightarrow> (RedirectUnauthorized, trace)
                       | (False, trace) \<Rightarrow> (NextWithSecurityHeaders, trace)))))"

text \<open>
  The rules of a table that a path matches, in table order.
\<close>

definition matching :: "string \<Rightarrow> (string \<times> 'a) list \<Rightarrow> (string \<times> 'a) list" where
  "matching path rules = filter (\<lambda>rule. route_matches path (fst rule)) rules"

text \<open>
  Modelled from the spec: the route policy matcher of section 4.2, for comparison with
  the code.  An exact match of a rule key comes first; otherwise the matching rule with
  the longest key is selected.
\<close>

fun longest :: "(string \<times> 'a) list \<Rightarrow> (string \<times> 'a) option" where
  "longest [] = None"
| "longest (rule # rules) =
     (case longest rules of
        None \<Rightarrow> Some rule
      | Some best \<Rightarrow> if length (fst best) \<le> length (fst rule) then Some rule else Some best)"

definition spec_match :: "string \<Rightarrow> (string \<times> 'a) list \<Rightarrow> (string \<times> 'a) option" where
  "spec_match path rules =
     (case filter (\<lambda>rule. fst rule = path) rules of
        rule # _ \<Rightarrow> Some rule
      | [] \<Rightarrow> longest (matching path rules))"

section \<open>Concrete configurations and requests\<close>

text \<open>
  The inputs the closed statements below are evaluated at: an empty guard state, an
  administrator whose account is locked until after the request's clock reading, a
  route without requirements whose handler returns or throws, a request without a
  session, an administrator with a session, and three requests to the middleware.
\<close>

definition state0 :: state where
  "state0 = \<lparr>requestCounts = Map.empty, emitted = [], audit_logs = []\<rparr>"




definition open_route :: RouteConfig where
  "open_route = \<lparr>requiredRole = None, requiredPermissions = None, anyPermission = None\<rparr>"

definition quiet_env :: "string env" where
  "quiet_env =
     \<lparr>req_path = ''/api/projects'', req_method = ''GET'', getSession = Inr (Some ''u1''),
      users_query = (\<lambda>userId. Inl NonError),
      handler_result = Returns ''ok'', clock = 1000, sink_up = True\<rparr>"

definition nosession_env :: "string env" where
  "nosession_env =
     \<lparr>req_path = ''/api/projects'', req_method = ''GET'', getSession = Inr None,
      users_query = (\<lambda>userId. Inl NonError),
      handler_result = ThrowsSync (Error ''boom''), clock = 1000, sink_up = True\<rparr>"

definition failing_handler_env :: "string env" where
  "failing_handler_env = quiet_env\<lparr>handler_result := ThrowsSync (Error ''boom'')\<rparr>"

definition admin_row :: users_row where
  "admin_row = \<lparr>u_role = Some Admin, u_active = True, u_failed_login_attempts = 0,
                 u_locked_until = None\<rparr>"

definition admin_env :: "string env" where
  "admin_env =
     \<lparr>req_path = ''/api/reports'', req_method = ''GET'', getSession = Inr (Some ''u1''),
      users_query = (\<lambda>userId. Inr \<lparr>q_error = False, q_data = Some admin_row\<rparr>),
      handler_result = Returns ''ok'', clock = 1000, sink_up = True\<rparr>"

definition grant_all :: "string \<Rightarrow> string list \<Rightarrow> permission_check" where
  "grant_all userRole required = HasPermission True"

definition grant_manage_only :: "string \<Rightarrow> string list \<Rightarrow> permission_check" where
  "grant_manage_only userRole required = HasPermission (required = [''manage:projects''])"

definition nested_env :: "(string \<Rightarrow> string list \<Rightarrow> permission_check) \<Rightarrow> mw_env" where
  "nested_env check =
     \<lparr>mw_path = ''/projects/new/drafts'', mw_session = Some ''u1'',
      mw_userData = Some ''director'', check_permissions = check\<rparr>"

definition visitor_env :: mw_env where
  "visitor_env =
     \<lparr>mw_path = ''/reports'', mw_session = Some ''u1'', mw_userData = Some ''visitor'',
      check_permissions = (\<lambda>userRole required. HasPermission False)\<rparr>"

section \<open>Results on the role hierarchy\<close>

lemma getInheritedRoles_Team: "getInheritedRoles ROLE_HIERARCHY Team = [Director, Admin, Admin]"
  by (simp add: getInheritedRoles_def ROLE_HIERARCHY_def parentRoles_def traverse.simps)

lemma getInheritedRoles_Director: "getInheritedRoles ROLE_HIERARCHY Director = [Admin]"
  by (simp add: getInheritedRoles_def ROLE_HIERARCHY_def parentRoles_def traverse.simps)

lemma getInheritedRoles_Admin: "getInheritedRoles ROLE_HIERARCHY Admin = []"
  by (simp add: getInheritedRoles_def ROLE_HIERARCHY_def parentRoles_def traverse.simps)

lemma getAllPermissions_Team:
  "getAllPermissions (Some Team) =
     [ViewProjects, ManageContent, SubmitContent, ViewAnalytics, ViewUsers, ManageProjects,
      ManageUsers, ManageSettings, ManageRoles]"
  by (simp add: getAllPermissions_def getInheritedRoles_Team new_Set_def set_add_def)

lemma getAllPermissions_Director:
  "getAllPermissions (Some Director) =
     [ViewUsers, ManageProjects, ViewProjects, ManageContent, SubmitContent, ViewAnalytics,
      ManageUsers, ManageSettings, ManageRoles]"
  by (simp add: getAllPermissions_def getInheritedRoles_Director new_Set_def set_add_def)

text \<open>
  C3.  As shipped, \<^verbatim>\<open>hasRole('team', 'admin')\<close> and \<^verbatim>\<open>hasRole('director', 'admin')\<close> are
  true, and the resolved permissions of \<^verbatim>\<open>team\<close> and of \<^verbatim>\<open>director\<close> contain every
  permission of \<^verbatim>\<open>ROLE_PERMISSIONS['admin']\<close>, \<^verbatim>\<open>manage:users\<close> and \<^verbatim>\<open>manage:roles\<close>
  among them.
\<close>

theorem team_and_director_hold_admin:
  "hasRole (Some Team) Admin \<and> hasRole (Some Director) Admin
   \<and> set (ROLE_PERMISSIONS Admin) \<subseteq> set (getAllPermissions (Some Team))
   \<and> set (ROLE_PERMISSIONS Admin) \<subseteq> set (getAllPermissions (Some Director))
   \<and> ManageUsers \<in> set (getAllPermissions (Some Team))
   \<and> ManageRoles \<in> set (getAllPermissions (Some Team))
   \<and> ManageUsers \<in> set (getAllPermissions (Some Director))
   \<and> ManageRoles \<in> set (getAllPermissions (Some Director))"
  by (simp add: hasRole_def getInheritedRoles_Team getInheritedRoles_Director
      getAllPermissions_Team getAllPermissions_Director)

lemma set_set_add: "set (set_add x s) = insert x (set s)"
  by (auto simp: set_add_def)

lemma distinct_set_add: "distinct s \<Longrightarrow> distinct (set_add x s)"
  by (simp add: set_add_def)

lemma set_fold_set_add: "set (fold set_add xs s) = set xs \<union> set s"
  by (induction xs arbitrary: s) (auto simp: set_set_add)

lemma distinct_fold_set_add: "distinct s \<Longrightarrow> distinct (fold set_add xs s)"
  by (induction xs arbitrary: s) (auto simp: distinct_set_add)

lemma set_fold_roles:
  "set (fold (\<lambda>r ps. fold set_add (P r) ps) rs s) = set s \<union> (\<Union>r \<in> set rs. set (P r))"
  by (induction rs arbitrary: s) (auto simp: set_fold_set_add)

lemma distinct_fold_roles:
  "distinct s \<Longrightarrow> distinct (fold (\<lambda>r ps. fold set_add (P r) ps) rs s)"
  by (induction rs arbitrary: s) (auto simp: distinct_fold_set_add)

text \<open>
  C7.  For every role \<open>R\<close>, the members of \<^verbatim>\<open>getAllPermissions(R)\<close> include the direct
  grants of \<open>R\<close> and are exactly the direct grants of \<open>R\<close> and of every role in
  \<^verbatim>\<open>getInheritedRoles(R)\<close>; no permission is listed twice.
\<close>

theorem getAllPermissions_union:
  "set (ROLE_PERMISSIONS R) \<subseteq> set (getAllPermissions (Some R))
   \<and> set (getAllPermissions (Some R))
       = (\<Union>r \<in> insert R (set (getInheritedRoles ROLE_HIERARCHY R)). set (ROLE_PERMISSIONS r))
   \<and> distinct (getAllPermissions (Some R))"
  by (auto simp: getAllPermissions_def new_Set_def set_fold_roles set_fold_set_add
      distinct_fold_roles distinct_fold_set_add)

subsection \<open>The traversal on an arbitrary configuration\<close>

lemma extends_refl: "extends h st st"
  by (simp add: extends_def)

lemma extends_trans: "extends h a b \<Longrightarrow> extends h b c \<Longrightarrow> extends h a c"
  unfolding extends_def by blast

lemma traverse_extends:
  "extends h st (traverse h c st) \<and> c \<in> fst (traverse h c st)"
  "extends h st (traverse_loop h ps st) \<and> set ps \<subseteq> fst (traverse_loop h ps st) \<inter> set (snd (traverse_loop h ps st))"
proof (induction h c st and h ps st rule: traverse_traverse_loop.induct)
  case (1 h currentRole visited result)
  show ?case
  proof (cases "currentRole \<in> visited")
    case True
    then show ?thesis by (simp add: extends_refl traverse.simps)
  next
    case False
    from 1[OF False] show ?thesis using False
      unfolding extends_def by (auto simp: traverse.simps)
  qed
next
  case (2 h st)
  show ?case by (simp add: extends_refl)
next
  case (3 h parentRole rest visited result)
  let ?s1 = "traverse h parentRole (visited, result @ [parentRole])"
  let ?s2 = "traverse_loop h rest ?s1"
  have a: "extends h (visited, result) (visited, result @ [parentRole])"
    by (auto simp: extends_def)
  from 3 have b: "extends h (visited, result @ [parentRole]) ?s1" and c: "parentRole \<in> fst ?s1"
    and d: "extends h ?s1 ?s2" and e: "set rest \<subseteq> fst ?s2 \<inter> set (snd ?s2)"
    by simp_all
  have "extends h (visited, result) ?s2"
    using a b d by (blast intro: extends_trans)
  moreover have "parentRole \<in> fst ?s2" using c d by (auto simp: extends_def)
  moreover have "parentRole \<in> set (snd ?s2)" using b d by (auto simp: extends_def)
  ultimately show ?case using e by simp
qed

lemma traverse_sound:
  "set (snd (traverse h c st)) \<subseteq> set (snd st) \<union> (roleEdges h)\<^sup>+ `` {c}"
  "set (snd (traverse_loop h ps st)) \<subseteq> set (snd st) \<union> set ps \<union> (roleEdges h)\<^sup>+ `` set ps"
proof (induction h c st and h ps st rule: traverse_traverse_loop.induct)
  case (1 h currentRole visited result)
  show ?case
  proof (cases "currentRole \<in> visited")
    case True
    then show ?thesis by (simp add: traverse.simps)
  next
    case False
    have "set (parentRoles h currentRole) \<subseteq> (roleEdges h)\<^sup>+ `` {currentRole}"
      by (auto simp: roleEdges_def)
    moreover have "(roleEdges h)\<^sup>+ `` set (parentRoles h currentRole) \<subseteq> (roleEdges h)\<^sup>+ `` {currentRole}"
      by (auto simp: roleEdges_def intro: trancl_into_trancl2)
    moreover have "set (snd (traverse_loop h (parentRoles h currentRole) (insert currentRole visited, result)))
        \<subseteq> set result \<union> set (parentRoles h currentRole)
            \<union> (roleEdges h)\<^sup>+ `` set (parentRoles h currentRole)"
      using 1[OF False] by simp
    moreover have "traverse h currentRole (visited, result)
        = traverse_loop h (parentRoles h currentRole) (insert currentRole visited, result)"
      using False by (simp add: traverse.simps)
    ultimately show ?thesis by (simp only: snd_conv) blast
  qed
next
  case (2 h st)
  show ?case by simp
next
  case (3 h parentRole rest visited result)
  let ?s1 = "traverse h parentRole (visited, result @ [parentRole])"
  from 3 have "set (snd ?s1) \<subseteq> set result \<union> {parentRole} \<union> (roleEdges h)\<^sup>+ `` {parentRole}"
    and "set (snd (traverse_loop h rest ?s1))
           \<subseteq> set (snd ?s1) \<union> set rest \<union> (roleEdges h)\<^sup>+ `` set rest"
    by simp_all
  then show ?case by (simp only: traverse_loop.simps snd_conv set_simps) blast
qed

lemma closed_reach:
  assumes "(c, y) \<in> (roleEdges h)\<^sup>*" "c \<in> v"
    and "\<forall>x \<in> v. set (parentRoles h x) \<subseteq> v"
  shows "y \<in> v"
  using assms(1,2)
proof (induction rule: rtrancl_induct)
  case base
  then show ?case by simp
next
  case (step y z)
  then show ?case using assms(3) by (auto simp: roleEdges_def)
qed

text \<open>
  C8 (as amended).  For every hierarchy configuration, cyclic ones included, the
  traversal returns (the function is total: its termination is proved above for every
  configuration), and the members of the array it returns are exactly the roles
  reachable from the queried role over one or more parent edges.
\<close>

theorem getInheritedRoles_reachable:
  "set (getInheritedRoles h role) = {p. (role, p) \<in> (roleEdges h)\<^sup>+}"
proof
  show "set (getInheritedRoles h role) \<subseteq> {p. (role, p) \<in> (roleEdges h)\<^sup>+}"
    using traverse_sound(1)[of h role "({}, [])"] by (auto simp: getInheritedRoles_def)
next
  let ?s = "traverse h role ({}, [])"
  from traverse_extends(1)[of h "({}, [])" role]
  have in_v: "role \<in> fst ?s"
    and cl: "\<forall>x \<in> fst ?s. set (parentRoles h x) \<subseteq> fst ?s \<inter> set (snd ?s)"
    by (auto simp: extends_def)
  show "{p. (role, p) \<in> (roleEdges h)\<^sup>+} \<subseteq> set (getInheritedRoles h role)"
  proof
    fix p assume "p \<in> {p. (role, p) \<in> (roleEdges h)\<^sup>+}"
    then have "(role, p) \<in> (roleEdges h)\<^sup>+" by simp
    then obtain x where rx: "(role, x) \<in> (roleEdges h)\<^sup>*" and xp: "(x, p) \<in> roleEdges h"
      by (meson tranclD2)
    have "x \<in> fst ?s"
      using closed_reach[OF rx in_v] cl by blast
    with cl xp show "p \<in> set (getInheritedRoles h role)"
      by (auto simp: roleEdges_def getInheritedRoles_def)
  qed
qed

text \<open>
  On a two-role cycle the traversal returns, and the queried role is among its own
  ancestors.
\<close>

lemma getInheritedRoles_cycle: "getInheritedRoles cyclic_hierarchy 0 = [1, 0]"
  by (simp add: getInheritedRoles_def cyclic_hierarchy_def parentRoles_def traverse.simps)

text \<open>
  C8, counterexample to the claim as stated.  The array returned for \<^verbatim>\<open>team\<close> in the
  shipped hierarchy is \<^verbatim>\<open>['director', 'admin', 'admin']\<close>: it has a duplicate.
\<close>

theorem getInheritedRoles_repeats:
  "getInheritedRoles ROLE_HIERARCHY Team = [Director, Admin, Admin]
   \<and> \<not> distinct (getInheritedRoles ROLE_HIERARCHY Team)"
  by (simp add: getInheritedRoles_Team)

text \<open>
  C10.  On an empty requirement list, \<^verbatim>\<open>hasAllPermissions\<close>, \<^verbatim>\<open>hasAnyPermission\<close> and
  \<^verbatim>\<open>hasRequiredRole\<close> return false for every role and for the undefined role: the empty
  ALL-mode requirement is denied, not vacuously granted.
\<close>

theorem empty_requirement_denied:
  "hasAllPermissions userRole [] = False
   \<and> hasAnyPermission userRole [] = False
   \<and> hasRequiredRole userRole [] = False"
  by (simp add: hasAllPermissions_def hasAnyPermission_def hasRequiredRole_def)

section \<open>Results on the rate limiter\<close>










section \<open>Results on the API guard\<close>

lemma logApiAccess_emitted:
  "emitted (logApiAccess up p m u r s why st) = emitted st @
     [\<lparr>ev_path = p, ev_method = m, ev_user_id = u, ev_user_role = r, ev_success = s, ev_reason = why\<rparr>]"
  by (simp add: logApiAccess_def Let_def)

lemma logApiAccess_requestCounts:
  "requestCounts (logApiAccess up p m u r s why st) = requestCounts st"
  by (simp add: logApiAccess_def Let_def)



lemma withAuth_try_sink:
  "fst (withAuth_try config (e\<lparr>sink_up := b\<rparr>) st) = fst (withAuth_try config e st)
   \<and> requestCounts (snd (withAuth_try config (e\<lparr>sink_up := b\<rparr>) st))
       = requestCounts (snd (withAuth_try config e st))
   \<and> emitted (snd (withAuth_try config (e\<lparr>sink_up := b\<rparr>) st))
       = emitted (snd (withAuth_try config e st))"
  by (simp add: withAuth_try_def call_handler_def Let_def logApiAccess_def
      split: sum.split option.split prod.split handler_outcome.split)

lemma withAuth_sink:
  "fst (withAuth config (e\<lparr>sink_up := b\<rparr>) st) = fst (withAuth config e st)
   \<and> requestCounts (snd (withAuth config (e\<lparr>sink_up := b\<rparr>) st))
       = requestCounts (snd (withAuth config e st))
   \<and> emitted (snd (withAuth config (e\<lparr>sink_up := b\<rparr>) st))
       = emitted (snd (withAuth config e st))"
proof -
  obtain x s where xs: "withAuth_try config e st = (x, s)" by (cases "withAuth_try config e st")
  obtain x' s' where xs': "withAuth_try config (e\<lparr>sink_up := b\<rparr>) st = (x', s')"
    by (cases "withAuth_try config (e\<lparr>sink_up := b\<rparr>) st")
  from withAuth_try_sink[where config=config and e=e and b=b and st=st] xs xs'
  have same: "x' = x" "requestCounts s' = requestCounts s" "emitted s' = emitted s" by simp_all
  show ?thesis using xs xs' same
    by (cases x) (simp_all add: withAuth_def logApiAccess_requestCounts logApiAccess_emitted)
qed

lemma withAuth_try_events:
  assumes "\<not> throws_sync (handler_result e)"
  shows "(\<exists>r. fst (withAuth_try config e st) = Inr r
             \<and> (\<exists>ev. emitted (snd (withAuth_try config e st)) = emitted st @ [ev]))
         \<or> (\<exists>err. fst (withAuth_try config e st) = Inl err
             \<and> emitted (snd (withAuth_try config e st)) = emitted st)"
  using assms
  by (cases "handler_result e")
     (simp_all add: withAuth_try_def call_handler_def Let_def logApiAccess_def
      split: sum.split option.split prod.split)

lemma withAuth_try_factor:
  "withAuth_try config e st =
     (case withAuth_try config (e\<lparr>handler_result := Rejects NonError\<rparr>) st of
        (x, s) \<Rightarrow>
          (case x of
             Inl err \<Rightarrow> (x, s)
           | Inr r \<Rightarrow> (case r of Rejected err \<Rightarrow> call_handler e s | _ \<Rightarrow> (x, s))))"
  by (simp add: withAuth_try_def call_handler_def Let_def
      split: sum.split option.split prod.split)

lemma withAuth_try_checks:
  "(case withAuth_try config (e\<lparr>handler_result := Rejects NonError\<rparr>) st of
      (x, s) \<Rightarrow>
        (case x of
           Inl err \<Rightarrow> emitted s = emitted st
         | Inr r \<Rightarrow> (\<exists>ev. emitted s = emitted st @ [ev]
                        \<and> (ev_success ev \<or> r \<noteq> Rejected NonError))))"
  by (simp add: withAuth_try_def call_handler_def Let_def logApiAccess_def
      split: sum.split option.split prod.split)

lemma reaches_handler_iff:
  "reaches_handler config e st \<longleftrightarrow>
     fst (withAuth_try config (e\<lparr>handler_result := Rejects NonError\<rparr>) st)
       = Inr (Rejected NonError)"
proof -
  obtain x s where xs: "withAuth_try config (e\<lparr>handler_result := Rejects NonError\<rparr>) st = (x, s)"
    by (cases "withAuth_try config (e\<lparr>handler_result := Rejects NonError\<rparr>) st")
  then show ?thesis by (cases x) (simp_all add: reaches_handler_def withAuth_def)
qed

lemma Rejected_only_from_handler:
  "fst (withAuth_try config (e\<lparr>handler_result := Rejects NonError\<rparr>) st) = Inr (Rejected err)
     \<Longrightarrow> err = NonError"
  by (simp add: withAuth_try_def call_handler_def Let_def
      split: sum.split_asm option.split_asm prod.split_asm if_split_asm)

lemma withAuth_try_events_unreached:
  assumes "\<not> reaches_handler config e st"
  shows "(\<exists>r. fst (withAuth_try config e st) = Inr r
             \<and> (\<exists>ev. emitted (snd (withAuth_try config e st)) = emitted st @ [ev]))
         \<or> (\<exists>err. fst (withAuth_try config e st) = Inl err
             \<and> emitted (snd (withAuth_try config e st)) = emitted st)"
proof -
  obtain x s where xs: "withAuth_try config (e\<lparr>handler_result := Rejects NonError\<rparr>) st = (x, s)"
    by (cases "withAuth_try config (e\<lparr>handler_result := Rejects NonError\<rparr>) st")
  show ?thesis
  proof (cases x)
    case (Inl err)
    with xs withAuth_try_factor[where config=config and e=e and st=st] withAuth_try_checks[where config=config and e=e and st=st]
    show ?thesis by simp
  next
    case (Inr r)
    have nr: "r \<noteq> Rejected err" for err
      using assms xs Inr Rejected_only_from_handler[where config=config and e=e and st=st and err=err]
      by (auto simp: reaches_handler_iff)
    have factor: "withAuth_try config e st =
        (case r of Rejected err \<Rightarrow> call_handler e s | _ \<Rightarrow> (Inr r, s))"
      using xs Inr withAuth_try_factor[where config=config and e=e and st=st] by simp
    have same: "withAuth_try config e st = (x, s)"
    proof (cases r)
      case (Json body status headers)
      with factor Inr show ?thesis by simp
    next
      case (Handled a)
      with factor Inr show ?thesis by simp
    next
      case (Rejected err)
      with nr show ?thesis by blast
    qed
    from xs Inr withAuth_try_checks[where config=config and e=e and st=st] same show ?thesis by auto
  qed
qed

lemma withAuth_try_events_reached:
  assumes "reaches_handler config e st" "handler_result e = ThrowsSync err"
  shows "fst (withAuth_try config e st) = Inl err
         \<and> (\<exists>ev. ev_success ev \<and> emitted (snd (withAuth_try config e st)) = emitted st @ [ev])"
proof -
  obtain x s where xs: "withAuth_try config (e\<lparr>handler_result := Rejects NonError\<rparr>) st = (x, s)"
    by (cases "withAuth_try config (e\<lparr>handler_result := Rejects NonError\<rparr>) st")
  with assms(1) have x: "x = Inr (Rejected NonError)" by (simp add: reaches_handler_iff)
  with xs withAuth_try_factor[where config=config and e=e and st=st] assms(2)
  have "withAuth_try config e st = (Inl err, s)" by (simp add: call_handler_def)
  moreover from xs x withAuth_try_checks[where config=config and e=e and st=st]
  have "\<exists>ev. ev_success ev \<and> emitted s = emitted st @ [ev]" by auto
  ultimately show ?thesis by simp
qed

lemma one_event_from_try:
  assumes "(\<exists>r. fst (withAuth_try config e st) = Inr r
             \<and> (\<exists>ev. emitted (snd (withAuth_try config e st)) = emitted st @ [ev]))
         \<or> (\<exists>err. fst (withAuth_try config e st) = Inl err
             \<and> emitted (snd (withAuth_try config e st)) = emitted st)"
  shows "\<exists>ev. emitted (snd (withAuth config e st)) = emitted st @ [ev]"
proof -
  obtain x s where xs: "withAuth_try config e st = (x, s)" by (cases "withAuth_try config e st")
  with assms show ?thesis
    by (cases x) (auto simp: withAuth_def logApiAccess_emitted)
qed

text \<open>
  The one case left out above emits two events: the success event, then the error event
  of the \<^verbatim>\<open>catch\<close> block, and the response is the 500 error.
\<close>

lemma withAuth_second_event:
  assumes "reaches_handler config e st" "handler_result e = ThrowsSync err"
  shows "fst (withAuth config e st) = Json ''Internal server error'' 500 []
         \<and> (\<exists>ev ev'. ev_success ev \<and> \<not> ev_success ev'
               \<and> emitted (snd (withAuth config e st)) = emitted st @ [ev, ev'])"
proof -
  obtain x s where xs: "withAuth_try config e st = (x, s)" by (cases "withAuth_try config e st")
  with withAuth_try_events_reached[OF assms] show ?thesis
    by (auto simp: withAuth_def logApiAccess_emitted)
qed

text \<open>
  C6 (as amended).  Every call of \<^verbatim>\<open>withAuth\<close> emits exactly one audit event, on every
  branch (allowed, denied for any reason, or an error caught by the guard), unless the
  guard reaches the call of the wrapped handler and the handler throws while it is being
  called; and for every call, whether the audit sink is up or down, the response, the
  rate counters and the events emitted are the same.
\<close>

theorem withAuth_one_audit_event:
  "(\<not> (reaches_handler config e st \<and> throws_sync (handler_result e))
      \<longrightarrow> (\<exists>ev. emitted (snd (withAuth config e st)) = emitted st @ [ev]))
   \<and> fst (withAuth config (e\<lparr>sink_up := b\<rparr>) st) = fst (withAuth config e st)
   \<and> requestCounts (snd (withAuth config (e\<lparr>sink_up := b\<rparr>) st))
       = requestCounts (snd (withAuth config e st))
   \<and> emitted (snd (withAuth config (e\<lparr>sink_up := b\<rparr>) st))
       = emitted (snd (withAuth config e st))"
proof -
  have "\<exists>ev. emitted (snd (withAuth config e st)) = emitted st @ [ev]"
    if "\<not> (reaches_handler config e st \<and> throws_sync (handler_result e))"
  proof (cases "reaches_handler config e st")
    case True
    with that have "\<not> throws_sync (handler_result e)" by simp
    from withAuth_try_events[OF this] show ?thesis by (rule one_event_from_try)
  next
    case False
    from withAuth_try_events_unreached[OF this] show ?thesis by (rule one_event_from_try)
  qed
  then show ?thesis using withAuth_sink[where config=config and e=e and b=b and st=st] by blast
qed

text \<open>
  The theorem at a request without a session whose handler would throw: the guard denies
  before the handler, and emits one event.
\<close>

theorem withAuth_one_audit_event_witness:
  "\<not> (reaches_handler open_route nosession_env state0 \<and> throws_sync (handler_result nosession_env))
   \<and> throws_sync (handler_result nosession_env)
   \<and> (\<exists>ev. emitted (snd (withAuth open_route nosession_env state0)) = emitted state0 @ [ev])
   \<and> fst (withAuth open_route (nosession_env\<lparr>sink_up := False\<rparr>) state0)
       = fst (withAuth open_route nosession_env state0)
   \<and> requestCounts (snd (withAuth open_route (nosession_env\<lparr>sink_up := False\<rparr>) state0))
       = requestCounts (snd (withAuth open_route nosession_env state0))
   \<and> emitted (snd (withAuth open_route (nosession_env\<lparr>sink_up := False\<rparr>) state0))
       = emitted (snd (withAuth open_route nosession_env state0))"
proof -
  have h: "\<not> (reaches_handler open_route nosession_env state0
              \<and> throws_sync (handler_result nosession_env))"
    by (simp add: reaches_handler_def nosession_env_def open_route_def state0_def withAuth_def
        withAuth_try_def Let_def)
  have t: "throws_sync (handler_result nosession_env)" by (simp add: nosession_env_def)
  from withAuth_one_audit_event[where config=open_route and e=nosession_env and st=state0
      and b=False] h t
  show ?thesis by blast
qed

text \<open>
  C6, counterexample to the claim as stated.  The handler is called inside the guard's
  \<^verbatim>\<open>try\<close> block, after the success event: when it throws there, the \<^verbatim>\<open>catch\<close> block
  emits a second event and the response is the 500 error.
\<close>

theorem throwing_handler_logs_twice:
  "fst (withAuth open_route failing_handler_env state0) = Json ''Internal server error'' 500 []
   \<and> emitted (snd (withAuth open_route failing_handler_env state0)) =
       [\<lparr>ev_path = ''/api/projects'', ev_method = ''GET'', ev_user_id = Some ''u1'',
         ev_user_role = None, ev_success = True, ev_reason = None\<rparr>,
        \<lparr>ev_path = ''/api/projects'', ev_method = ''GET'', ev_user_id = None,
         ev_user_role = None, ev_success = False, ev_reason = Some ''Error: boom''\<rparr>]"
  by (simp add: failing_handler_env_def quiet_env_def state0_def open_route_def withAuth_def
      withAuth_try_def isRateLimited_def Object_prototype_def userKeyOf_def is_set_def call_handler_def
      logApiAccess_def Let_def)

text \<open>
  C9.  \<^verbatim>\<open>hasRole('admin', 'director')\<close> is false; and on a route that requires the role
  \<^verbatim>\<open>director\<close>, a caller with a session, within the rate limit, whose role is
  \<^verbatim>\<open>admin\<close>, is denied with status 403 and the audit reason \<^verbatim>\<open>Insufficient role\<close>.
\<close>

theorem admin_denied_on_director_route:
  assumes "getSession e = Inr (Some userId)"
    and "fst (isRateLimited (clock e) userId (requestCounts st)) = False"
    and "users_query e userId = Inr q" and "q_error q = False"
    and "q_data q = Some row" and "u_role row = Some Admin"
    and "requiredRole config = Some Director"
  shows "hasRole (Some Admin) Director = False
         \<and> fst (withAuth config e st) = Json ''Insufficient permissions'' 403 []
         \<and> emitted (snd (withAuth config e st)) = emitted st @
             [\<lparr>ev_path = req_path e, ev_method = req_method e, ev_user_id = Some userId,
               ev_user_role = Some Admin, ev_success = False,
               ev_reason = Some ''Insufficient role''\<rparr>]"
proof -
  have no: "hasRole (Some Admin) Director = False"
    by (simp add: hasRole_def getInheritedRoles_Admin)
  obtain limited counts where rl: "isRateLimited (clock e) userId (requestCounts st) = (limited, counts)"
    by (cases "isRateLimited (clock e) userId (requestCounts st)")
  with assms(2) have "limited = False" by simp
  with rl assms no have
    "withAuth_try config e st =
       (Inr (Json ''Insufficient permissions'' 403 []),
        logApiAccess (sink_up e) (req_path e) (req_method e) (Some userId) (Some Admin) False
          (Some ''Insufficient role'') (st\<lparr>requestCounts := counts\<rparr>))"
    by (simp add: withAuth_try_def Let_def is_set_def)
  then show ?thesis using no by (simp add: withAuth_def logApiAccess_emitted)
qed

theorem admin_denied_on_director_route_witness:
  "hasRole (Some Admin) Director = False
   \<and> fst (withDirectorAuth admin_env state0) = Json ''Insufficient permissions'' 403 []
   \<and> emitted (snd (withDirectorAuth admin_env state0)) =
       [\<lparr>ev_path = ''/api/reports'', ev_method = ''GET'', ev_user_id = Some ''u1'',
         ev_user_role = Some Admin, ev_success = False, ev_reason = Some ''Insufficient role''\<rparr>]"
proof -
  let ?config = "\<lparr>requiredRole = Some Director, requiredPermissions = None,
                  anyPermission = None\<rparr>"
  have a: "getSession admin_env = Inr (Some ''u1'')" by (simp add: admin_env_def)
  have b: "fst (isRateLimited (clock admin_env) ''u1'' (requestCounts state0)) = False"
    by (simp add: isRateLimited_def Object_prototype_def userKeyOf_def state0_def)
  have c: "users_query admin_env ''u1'' = Inr \<lparr>q_error = False, q_data = Some admin_row\<rparr>"
    by (simp add: admin_env_def)
  have d: "q_error \<lparr>q_error = False, q_data = Some admin_row\<rparr> = False"
    and e: "q_data \<lparr>q_error = False, q_data = Some admin_row\<rparr> = Some admin_row"
    by simp_all
  have f: "u_role admin_row = Some Admin" by (simp add: admin_row_def)
  have g: "requiredRole ?config = Some Director" by simp
  from admin_denied_on_director_route[OF a b c d e f g]
  show ?thesis by (simp add: withDirectorAuth_def admin_env_def state0_def)
qed

section \<open>Results on the route middleware\<close>

lemma roleLoop_None:
  "roleLoop userId path userRole rules = None
     \<longleftrightarrow> list_all (\<lambda>rule. userRole \<in> set (snd rule)) (matching path rules)"
  by (induction rules) (auto simp: matching_def split: if_splits)

lemma permissionLoop_denies:
  "fst (permissionLoop check userId path userRole rules trace)
     \<longleftrightarrow> \<not> list_all (\<lambda>rule. check userRole (snd rule) = HasPermission True) (matching path rules)"
  by (induction rules arbitrary: trace)
     (auto simp: matching_def split: permission_check.split bool.split)

lemma roleLoop_find:
  "roleLoop userId path userRole rules =
     map_option (\<lambda>rule. [LogUnauthorized userId path userRole (snd rule)])
       (find (\<lambda>rule. userRole \<notin> set (snd rule)) (matching path rules))"
  by (induction rules) (auto simp: matching_def)

lemma permissionLoop_trace:
  "permissionLoop check userId path userRole rules trace =
     (case dropWhile (\<lambda>rule. check userRole (snd rule) = HasPermission True) (matching path rules) of
        [] \<Rightarrow> (False, trace @ map (\<lambda>rule. Invoke userRole (snd rule)) (matching path rules))
      | rule # _ \<Rightarrow>
          (True, trace
             @ map (\<lambda>rule. Invoke userRole (snd rule))
                 (takeWhile (\<lambda>rule. check userRole (snd rule) = HasPermission True)
                    (matching path rules))
             @ [Invoke userRole (snd rule), LogUnauthorized userId path userRole (snd rule)]))"
proof (induction rules arbitrary: trace)
  case Nil
  show ?case by (simp add: matching_def)
next
  case (Cons x rules)
  obtain route required where x: "x = (route, required)" by (cases x)
  show ?case
  proof (cases "route_matches path route")
    case False
    then show ?thesis using Cons.IH[of trace]
      by (simp add: matching_def x split: list.split del: dropWhile_eq_Nil_conv)
  next
    case True
    show ?thesis
    proof (cases "check userRole required = HasPermission True")
      case passes: True
      then show ?thesis
        using True Cons.IH[of "trace @ [Invoke userRole required]"]
        by (simp add: matching_def x split: list.split del: dropWhile_eq_Nil_conv)
    next
      case fails: False
      then show ?thesis using True
        by (simp add: matching_def x split: permission_check.split bool.split)
    qed
  qed
qed

text \<open>
  C2 (as amended).  For a path that is not public, with a session and a readable user
  row, the middleware enforces every rule the path matches, exactly or as a prefix, not
  only the longest: the request goes through when the role is listed in every matching
  role rule and the permission check succeeds for every matching permission rule, and is
  redirected to \<^verbatim>\<open>/unauthorized\<close> otherwise.  The rules are enforced in table order,
  role rules before permission rules: at the first matching role rule that fails the
  refusal is logged and no permission is checked; otherwise the permission check is
  called for the matching permission rules in table order, up to and including the
  first that fails, whose refusal is logged.
\<close>

theorem middleware_enforces_every_matching_rule:
  assumes "\<not> list_ex (\<lambda>route. route_matches (mw_path e) route) publicRoutes"
    and "mw_session e = Some userId" and "mw_userData e = Some userRole"
  shows "fst (middleware e) =
           (if list_all (\<lambda>rule. userRole \<in> set (snd rule)) (matching (mw_path e) routeRoles)
               \<and> list_all (\<lambda>rule. check_permissions e userRole (snd rule) = HasPermission True)
                   (matching (mw_path e) routePermissions)
            then NextWithSecurityHeaders else RedirectUnauthorized)
         \<and> middleware e =
           (case find (\<lambda>rule. userRole \<notin> set (snd rule)) (matching (mw_path e) routeRoles) of
              Some rule \<Rightarrow>
                (RedirectUnauthorized, [LogUnauthorized userId (mw_path e) userRole (snd rule)])
            | None \<Rightarrow>
                (case dropWhile (\<lambda>rule. check_permissions e userRole (snd rule) = HasPermission True)
                        (matching (mw_path e) routePermissions) of
                   [] \<Rightarrow>
                     (NextWithSecurityHeaders,
                      map (\<lambda>rule. Invoke userRole (snd rule)) (matching (mw_path e) routePermissions))
                 | rule # _ \<Rightarrow>
                     (RedirectUnauthorized,
                      map (\<lambda>rule. Invoke userRole (snd rule))
                        (takeWhile (\<lambda>rule. check_permissions e userRole (snd rule) = HasPermission True)
                           (matching (mw_path e) routePermissions))
                      @ [Invoke userRole (snd rule),
                         LogUnauthorized userId (mw_path e) userRole (snd rule)])))"
proof -
  have trace: "middleware e =
           (case find (\<lambda>rule. userRole \<notin> set (snd rule)) (matching (mw_path e) routeRoles) of
              Some rule \<Rightarrow>
                (RedirectUnauthorized, [LogUnauthorized userId (mw_path e) userRole (snd rule)])
            | None \<Rightarrow>
                (case dropWhile (\<lambda>rule. check_permissions e userRole (snd rule) = HasPermission True)
                        (matching (mw_path e) routePermissions) of
                   [] \<Rightarrow>
                     (NextWithSecurityHeaders,
                      map (\<lambda>rule. Invoke userRole (snd rule)) (matching (mw_path e) routePermissions))
                 | rule # _ \<Rightarrow>
                     (RedirectUnauthorized,
                      map (\<lambda>rule. Invoke userRole (snd rule))
                        (takeWhile (\<lambda>rule. check_permissions e userRole (snd rule) = HasPermission True)
                           (matching (mw_path e) routePermissions))
                      @ [Invoke userRole (snd rule),
                         LogUnauthorized userId (mw_path e) userRole (snd rule)])))"
    using assms
    by (simp add: middleware_def Let_def roleLoop_find permissionLoop_trace
        split: option.split list.split del: dropWhile_eq_Nil_conv)
  have resp: "fst (middleware e) =
           (if list_all (\<lambda>rule. userRole \<in> set (snd rule)) (matching (mw_path e) routeRoles)
               \<and> list_all (\<lambda>rule. check_permissions e userRole (snd rule) = HasPermission True)
                   (matching (mw_path e) routePermissions)
            then NextWithSecurityHeaders else RedirectUnauthorized)"
  proof (cases "roleLoop userId (mw_path e) userRole routeRoles")
    case None
    obtain denied trace where pl:
      "permissionLoop (check_permissions e) userId (mw_path e) userRole routePermissions [] = (denied, trace)"
      by (cases "permissionLoop (check_permissions e) userId (mw_path e) userRole routePermissions []")
    from permissionLoop_denies[of "check_permissions e" userId "mw_path e" userRole routePermissions "[]"] pl
    have d: "denied \<longleftrightarrow> \<not> list_all (\<lambda>rule. check_permissions e userRole (snd rule) = HasPermission True)
                     (matching (mw_path e) routePermissions)"
      by simp
    from None have r: "list_all (\<lambda>rule. userRole \<in> set (snd rule)) (matching (mw_path e) routeRoles)"
      by (simp add: roleLoop_None)
    show ?thesis using assms None pl d r by (cases denied) (simp_all add: middleware_def Let_def)
  next
    case (Some trace)
    then have "\<not> list_all (\<lambda>rule. userRole \<in> set (snd rule)) (matching (mw_path e) routeRoles)"
      using roleLoop_None[of userId "mw_path e" userRole routeRoles] by simp
    then show ?thesis using assms Some by (simp add: middleware_def Let_def)
  qed
  from resp trace show ?thesis by (rule conjI)
qed

lemma public_nested: "\<not> list_ex (\<lambda>route. route_matches ''/projects/new/drafts'' route) publicRoutes"
  by (simp add: publicRoutes_def route_matches_def)

lemma matching_nested:
  "matching ''/projects/new/drafts'' routePermissions =
     [(''/projects'', [''view:projects'']), (''/projects/new'', [''manage:projects''])]"
  by (simp add: matching_def routePermissions_def route_matches_def)

lemma matching_roles_nested: "matching ''/projects/new/drafts'' routeRoles = []"
  by (simp add: matching_def routeRoles_def route_matches_def)

theorem middleware_enforces_every_matching_rule_witness:
  "\<not> list_ex (\<lambda>route. route_matches (mw_path (nested_env grant_manage_only)) route) publicRoutes
   \<and> fst (middleware (nested_env grant_manage_only)) = RedirectUnauthorized
   \<and> middleware (nested_env grant_manage_only) =
       (RedirectUnauthorized,
        [Invoke ''director'' [''view:projects''],
         LogUnauthorized ''u1'' ''/projects/new/drafts'' ''director'' [''view:projects'']])"
proof -
  have a: "\<not> list_ex (\<lambda>route. route_matches (mw_path (nested_env grant_manage_only)) route) publicRoutes"
    by (simp add: nested_env_def public_nested)
  have b: "mw_session (nested_env grant_manage_only) = Some ''u1''"
    and c: "mw_userData (nested_env grant_manage_only) = Some ''director''"
    by (simp_all add: nested_env_def)
  from middleware_enforces_every_matching_rule[OF a b c] a
  show ?thesis
    by (simp add: nested_env_def matching_nested matching_roles_nested grant_manage_only_def)
qed

text \<open>
  C2, counterexample to the claim as stated.  The path \<^verbatim>\<open>/projects/new/drafts\<close> is no
  rule key and has the two prefix rules \<^verbatim>\<open>/projects\<close> and \<^verbatim>\<open>/projects/new\<close>, of which
  the second is the longest.  The middleware checks the requirements of both; and when
  the requirement of the longest rule holds and that of the shorter one does not, the
  request is refused.
\<close>

theorem two_prefix_rules_both_enforced:
  "filter (\<lambda>rule. fst rule = ''/projects/new/drafts'') routePermissions = []
   \<and> matching ''/projects/new/drafts'' routePermissions =
       [(''/projects'', [''view:projects'']), (''/projects/new'', [''manage:projects''])]
   \<and> spec_match ''/projects/new/drafts'' routePermissions
       = Some (''/projects/new'', [''manage:projects''])
   \<and> middleware (nested_env grant_all) =
       (NextWithSecurityHeaders,
        [Invoke ''director'' [''view:projects''], Invoke ''director'' [''manage:projects'']])
   \<and> grant_manage_only ''director'' [''manage:projects''] = HasPermission True
   \<and> fst (middleware (nested_env grant_manage_only)) = RedirectUnauthorized"
  by (simp add: spec_match_def matching_def routePermissions_def routeRoles_def publicRoutes_def
      route_matches_def middleware_def nested_env_def grant_all_def grant_manage_only_def Let_def)

lemma roleLoop_unmatched:
  "matching path rules = [] \<Longrightarrow> roleLoop userId path userRole rules = None"
  by (induction rules) (auto simp: matching_def split: if_splits)

lemma permissionLoop_unmatched:
  "matching path rules = [] \<Longrightarrow> permissionLoop check userId path userRole rules trace = (False, trace)"
  by (induction rules arbitrary: trace) (auto simp: matching_def split: if_splits)

text \<open>
  C4 (as amended).  For a path that matches no public route and no rule: without a
  session the request is redirected to the login page; with a session the user row is
  read, and the request goes through whatever role the row holds, with no role or
  permission check (it is sent to the logout route when the row cannot be read).
\<close>

theorem unmatched_path_default:
  assumes "\<not> list_ex (\<lambda>route. route_matches (mw_path e) route) publicRoutes"
    and "matching (mw_path e) routeRoles = []"
    and "matching (mw_path e) routePermissions = []"
  shows "middleware e =
           (case mw_session e of
              None \<Rightarrow> (RedirectLogin (mw_path e), [])
            | Some userId \<Rightarrow>
                (case mw_userData e of
                   None \<Rightarrow> (RedirectLogout, [])
                 | Some userRole \<Rightarrow> (NextWithSecurityHeaders, [])))"
  using assms
  by (simp add: middleware_def Let_def roleLoop_unmatched permissionLoop_unmatched
      split: option.split)

lemma visitor_unmatched:
  "\<not> list_ex (\<lambda>route. route_matches (mw_path visitor_env) route) publicRoutes"
  "matching (mw_path visitor_env) routeRoles = []"
  "matching (mw_path visitor_env) routePermissions = []"
  by (simp_all add: visitor_env_def publicRoutes_def routeRoles_def routePermissions_def
      matching_def route_matches_def)

theorem unmatched_path_default_witness:
  "middleware visitor_env = (NextWithSecurityHeaders, [])
   \<and> middleware (visitor_env\<lparr>mw_session := None\<rparr>) = (RedirectLogin ''/reports'', [])"
proof -
  have "mw_path (visitor_env\<lparr>mw_session := None\<rparr>) = mw_path visitor_env" by simp
  with visitor_unmatched
  have "\<not> list_ex (\<lambda>route. route_matches (mw_path (visitor_env\<lparr>mw_session := None\<rparr>)) route) publicRoutes"
    "matching (mw_path (visitor_env\<lparr>mw_session := None\<rparr>)) routeRoles = []"
    "matching (mw_path (visitor_env\<lparr>mw_session := None\<rparr>)) routePermissions = []"
    by simp_all
  from unmatched_path_default[OF visitor_unmatched] unmatched_path_default[OF this]
  show ?thesis by (simp add: visitor_env_def)
qed

text \<open>
  C4, counterexample to the claim as stated.  A session whose row holds the role
  \<^verbatim>\<open>visitor\<close>, which is none of the five roles, requests \<^verbatim>\<open>/reports\<close>, which matches
  nothing: the request goes through and no check is made.
\<close>

theorem unknown_role_is_let_through:
  "\<not> list_ex (\<lambda>route. route_matches ''/reports'' route) publicRoutes
   \<and> matching ''/reports'' routeRoles = []
   \<and> matching ''/reports'' routePermissions = []
   \<and> ''visitor'' \<notin> set [''admin'', ''director'', ''team'', ''client'', ''builder'']
   \<and> mw_session visitor_env = Some ''u1''
   \<and> mw_userData visitor_env = Some ''visitor''
   \<and> middleware visitor_env = (NextWithSecurityHeaders, [])"
  by (simp add: visitor_env_def publicRoutes_def routeRoles_def routePermissions_def
      matching_def route_matches_def middleware_def Let_def)

end
